theory Spec2Isabelle
  imports Complex_Main "HOL-Library.AList"
begin

section \<open>Numbers\<close>

text \<open>
  The source computes with JavaScript numbers, which are binary64 floating-point
  numbers. A finite number is modelled as a rational (\<open>Num q\<close>), and the three special
  values are kept, because the source can produce them from finite inputs: \<open>Math.max()\<close>
  of no arguments is \<open>-Infinity\<close>, and a division by zero is an infinity or \<open>NaN\<close>. The
  sign of a zero is not tracked.

  The product and the quotient of two finite numbers are rounded as binary64 rounds
  them: to the nearest number with a significand of 53 bits, a tie going to the even
  significand, with gradual underflow below \<open>2^-1022\<close>. Overflow to an infinity is not
  modelled: a result beyond the largest binary64 number stays finite.
\<close>

text \<open>\<open>2^e\<close> for an integer \<open>e\<close>.\<close>

definition pow2 :: "int \<Rightarrow> rat" where
  "pow2 e = (if 0 \<le> e then 2 ^ nat e else 1 / 2 ^ nat (- e))"

text \<open>The number of binary digits of a positive integer.\<close>

function bitlen :: "int \<Rightarrow> int" where
  "bitlen n = (if 0 < n then 1 + bitlen (n div 2) else 0)"
  by pat_completeness auto
termination
  by (relation "measure nat") auto

declare bitlen.simps [simp del]

text \<open>
  The binary exponent of a positive number \<open>x\<close>: the \<open>e\<close> with \<open>2^e \<le> x < 2^(e+1)\<close>. For
  \<open>x = a / b\<close> it is the difference of the digit counts of \<open>a\<close> and \<open>b\<close>, or one less.
\<close>

definition exponent :: "rat \<Rightarrow> int" where
  "exponent x =
     (let (a, b) = quotient_of x;
          e0 = bitlen a - bitlen b
      in if pow2 e0 \<le> x then e0 else e0 - 1)"

text \<open>The nearest integer, a tie going to the even one.\<close>

definition round_half_even :: "rat \<Rightarrow> int" where
  "round_half_even y =
     (let f = \<lfloor>y\<rfloor>; r = y - of_int f
      in if r < 1 / 2 then f else if 1 / 2 < r then f + 1 else if even f then f else f + 1)"

text \<open>
  The binary64 number nearest to \<open>x\<close>. The last place of a number with exponent \<open>e\<close> is
  worth \<open>2^(e - 52)\<close>, and never less than \<open>2^-1074\<close>.
\<close>

definition binary64 :: "rat \<Rightarrow> rat" where
  "binary64 x =
     (if x = 0 then 0
      else let a = \<bar>x\<bar>;
               p = max (exponent a - 52) (- 1074);
               r = of_int (round_half_even (a / pow2 p)) * pow2 p
           in if x < 0 then - r else r)"

datatype jsnum = Num rat | PosInf | NegInf | NaN

text \<open>The comparison \<open>a < b\<close>: false as soon as an operand is \<open>NaN\<close>.\<close>

fun js_lt :: "jsnum \<Rightarrow> jsnum \<Rightarrow> bool" where
  "js_lt NaN b = False"
| "js_lt a NaN = False"
| "js_lt (Num a) (Num b) = (a < b)"
| "js_lt (Num a) PosInf = True"
| "js_lt (Num a) NegInf = False"
| "js_lt PosInf b = False"
| "js_lt NegInf NegInf = False"
| "js_lt NegInf b = True"

text \<open>The comparison \<open>a >= b\<close>.\<close>

definition js_ge :: "jsnum \<Rightarrow> jsnum \<Rightarrow> bool" where
  "js_ge a b = (a \<noteq> NaN \<and> b \<noteq> NaN \<and> \<not> js_lt a b)"

text \<open>Strict equality \<open>a === b\<close> of two numbers: \<open>NaN\<close> equals nothing.\<close>

definition js_eq :: "jsnum \<Rightarrow> jsnum \<Rightarrow> bool" where
  "js_eq a b = (a \<noteq> NaN \<and> b \<noteq> NaN \<and> a = b)"

fun js_max2 :: "jsnum \<Rightarrow> jsnum \<Rightarrow> jsnum" where
  "js_max2 NaN b = NaN"
| "js_max2 a NaN = NaN"
| "js_max2 a b = (if js_lt a b then b else a)"

text \<open>\<open>Math.max(...xs)\<close>: the largest argument, \<open>-Infinity\<close> when there is none.\<close>

definition Math_max :: "jsnum list \<Rightarrow> jsnum" where
  "Math_max xs = foldl js_max2 NegInf xs"

text \<open>\<open>Math.min(a, b)\<close>.\<close>

fun Math_min :: "jsnum \<Rightarrow> jsnum \<Rightarrow> jsnum" where
  "Math_min NaN b = NaN"
| "Math_min a NaN = NaN"
| "Math_min a b = (if js_lt b a then b else a)"

text \<open>\<open>Math.ceil(a)\<close>.\<close>

fun Math_ceil :: "jsnum \<Rightarrow> jsnum" where
  "Math_ceil (Num a) = Num (of_int \<lceil>a\<rceil>)"
| "Math_ceil a = a"

text \<open>The quotient \<open>a / b\<close>.\<close>

fun js_div :: "jsnum \<Rightarrow> jsnum \<Rightarrow> jsnum" where
  "js_div NaN b = NaN"
| "js_div a NaN = NaN"
| "js_div (Num a) (Num b) =
     (if b = 0 then (if a = 0 then NaN else if 0 < a then PosInf else NegInf)
      else Num (binary64 (a / b)))"
| "js_div (Num a) b = Num 0"
| "js_div PosInf (Num b) = (if b < 0 then NegInf else PosInf)"
| "js_div NegInf (Num b) = (if b < 0 then PosInf else NegInf)"
| "js_div a b = NaN"

text \<open>The product \<open>a * b\<close>.\<close>

fun js_mul :: "jsnum \<Rightarrow> jsnum \<Rightarrow> jsnum" where
  "js_mul NaN b = NaN"
| "js_mul a NaN = NaN"
| "js_mul (Num a) (Num b) = Num (binary64 (a * b))"
| "js_mul (Num a) PosInf = (if a = 0 then NaN else if 0 < a then PosInf else NegInf)"
| "js_mul (Num a) NegInf = (if a = 0 then NaN else if 0 < a then NegInf else PosInf)"
| "js_mul PosInf (Num b) = (if b = 0 then NaN else if 0 < b then PosInf else NegInf)"
| "js_mul NegInf (Num b) = (if b = 0 then NaN else if 0 < b then NegInf else PosInf)"
| "js_mul PosInf PosInf = PosInf"
| "js_mul NegInf NegInf = PosInf"
| "js_mul a b = NegInf"

text \<open>
  The sum \<open>a + b\<close> and the difference \<open>a - b\<close>, written without rounding. The source
  subtracts in \<open>totalSegments - 1\<close>, a difference of two integers, which binary64 gives
  exactly up to \<open>2^53\<close>, and in the durations \<open>endTime - startTime\<close> of the layers and
  \<open>end - start\<close> of the animations.
\<close>

fun js_add :: "jsnum \<Rightarrow> jsnum \<Rightarrow> jsnum" where
  "js_add NaN b = NaN"
| "js_add a NaN = NaN"
| "js_add (Num a) (Num b) = Num (a + b)"
| "js_add (Num a) b = b"
| "js_add a (Num b) = a"
| "js_add PosInf PosInf = PosInf"
| "js_add NegInf NegInf = NegInf"
| "js_add a b = NaN"

fun js_neg :: "jsnum \<Rightarrow> jsnum" where
  "js_neg (Num a) = Num (- a)"
| "js_neg PosInf = NegInf"
| "js_neg NegInf = PosInf"
| "js_neg NaN = NaN"

definition js_sub :: "jsnum \<Rightarrow> jsnum \<Rightarrow> jsnum" where
  "js_sub a b = js_add a (js_neg b)"

section \<open>Data model (types/index.ts)\<close>

text \<open>
  A transcription span. Its offsets are finite numbers, as the timestamps of a
  transcription provider are; a span with an offset that is \<open>NaN\<close> or an infinity is
  outside the model, and no statement below is about one.
\<close>

record TranscriptionResult =
  tr_text :: string
  tr_start :: rat
  tr_end :: rat
  tr_confidence :: "rat option"

datatype theme = nature | city | abstract | minimal | colorful

datatype animationType = fade_anim | karaoke | bounce | slide_anim

datatype textPosition = top | center | bottom

record VideoStyle =
  fontFamily :: string
  fontSize :: rat
  fontColor :: string
  backgroundColor :: string
  style_theme :: theme
  style_animationType :: animationType
  style_textPosition :: textPosition

datatype videoSource = stock | ai_generated

record BackgroundVideo =
  bv_id :: string
  bv_url :: string
  bv_keywords :: "string list"
  bv_duration :: rat
  bv_thumbnail :: string
  bv_source :: videoSource

section \<open>Timeline (VideoRenderingModule.ts)\<close>

datatype transition = fade | slide | zoom | none

record TimelineSegment =
  startTime :: jsnum
  endTime :: jsnum
  backgroundVideo :: BackgroundVideo
  lyrics :: "TranscriptionResult list"
  transitions :: "transition \<times> transition"

text \<open>
  The pair is \<open>(in, out)\<close>. The lookup table of the middle segments is a partial map, so
  that the source's fallback \<open>|| {in: fade, out: fade}\<close> has its place in the model.
\<close>

definition transitionMap :: "theme \<Rightarrow> (transition \<times> transition) option" where
  "transitionMap th =
     (case th of
        nature \<Rightarrow> Some (fade, fade)
      | city \<Rightarrow> Some (slide, slide)
      | abstract \<Rightarrow> Some (zoom, zoom)
      | minimal \<Rightarrow> Some (fade, fade)
      | colorful \<Rightarrow> Some (slide, slide))"

definition getTransitionsForSegment ::
  "nat \<Rightarrow> jsnum \<Rightarrow> VideoStyle \<Rightarrow> transition \<times> transition" where
  "getTransitionsForSegment segmentIndex totalSegments style =
     (if segmentIndex = 0 then (fade, none)
      else if js_eq (Num (of_nat segmentIndex)) (js_sub totalSegments (Num 1)) then (none, fade)
      else (case transitionMap (style_theme style) of
              Some t \<Rightarrow> t
            | None \<Rightarrow> (fade, fade)))"

datatype error = NoBackgroundVideos | RenderFailed

text \<open>
  One pass of the body of the loop of \<open>buildTimeline\<close>, for the counter \<open>i\<close>: the
  segment it pushes.
\<close>

definition makeSegment ::
  "TranscriptionResult list \<Rightarrow> BackgroundVideo list \<Rightarrow> VideoStyle \<Rightarrow>
   jsnum \<Rightarrow> jsnum \<Rightarrow> jsnum \<Rightarrow> nat \<Rightarrow> TimelineSegment" where
  "makeSegment transcriptions backgroundVideos style totalDuration segmentCount
       actualSegmentDuration i =
     (let startT = js_mul (Num (of_nat i)) actualSegmentDuration;
          endT = Math_min (js_mul (Num (of_nat (i + 1))) actualSegmentDuration) totalDuration
      in \<lparr> startTime = startT,
           endTime = endT,
           backgroundVideo = backgroundVideos ! (i mod length backgroundVideos),
           lyrics = filter (\<lambda>t. js_ge (Num (tr_start t)) startT \<and> js_lt (Num (tr_start t)) endT)
                      transcriptions,
           transitions = getTransitionsForSegment i segmentCount style \<rparr>)"

text \<open>
  The loop \<open>for (let i = 0; i < segmentCount; i++)\<close>. It does not return when
  \<open>segmentCount\<close> is \<open>Infinity\<close>: not returning is the value \<open>None\<close>.
\<close>

partial_function (option) createSegments ::
  "TranscriptionResult list \<Rightarrow> BackgroundVideo list \<Rightarrow> VideoStyle \<Rightarrow>
   jsnum \<Rightarrow> jsnum \<Rightarrow> jsnum \<Rightarrow> nat \<Rightarrow> TimelineSegment list \<Rightarrow> TimelineSegment list option" where
  "createSegments transcriptions backgroundVideos style totalDuration segmentCount
       actualSegmentDuration i timeline =
     (if js_lt (Num (of_nat i)) segmentCount
      then createSegments transcriptions backgroundVideos style totalDuration segmentCount
             actualSegmentDuration (i + 1)
             (timeline @ [makeSegment transcriptions backgroundVideos style totalDuration
                            segmentCount actualSegmentDuration i])
      else Some timeline)"

declare createSegments.simps [code]

definition targetSegmentDuration :: jsnum where
  "targetSegmentDuration = Num 10"

text \<open>The three constants \<open>buildTimeline\<close> computes before its loop.\<close>

definition totalDuration :: "TranscriptionResult list \<Rightarrow> jsnum" where
  "totalDuration transcriptions = Math_max (map (\<lambda>t. Num (tr_end t)) transcriptions)"

definition segmentCount :: "TranscriptionResult list \<Rightarrow> jsnum" where
  "segmentCount transcriptions =
     Math_ceil (js_div (totalDuration transcriptions) targetSegmentDuration)"

definition actualSegmentDuration :: "TranscriptionResult list \<Rightarrow> jsnum" where
  "actualSegmentDuration transcriptions =
     js_div (totalDuration transcriptions) (segmentCount transcriptions)"

text \<open>
  \<open>buildTimeline\<close>: \<open>Inl\<close> is the exception it throws, \<open>Inr\<close> the timeline it returns.
\<close>

definition buildTimeline ::
  "TranscriptionResult list \<Rightarrow> BackgroundVideo list \<Rightarrow> VideoStyle \<Rightarrow>
   (error + TimelineSegment list) option" where
  "buildTimeline transcriptions backgroundVideos style =
     (if length backgroundVideos = 0 then Some (Inl NoBackgroundVideos)
      else map_option Inr
             (createSegments transcriptions backgroundVideos style
                (totalDuration transcriptions) (segmentCount transcriptions)
                (actualSegmentDuration transcriptions) 0 []))"

section \<open>Layers and text animations (VideoRenderingModule.ts)\<close>

datatype videoFormat = mp4 | mov | webm

datatype videoQuality = draft | preview | final

record RenderingOptions =
  res_width :: rat
  res_height :: rat
  framerate :: rat
  bitrate :: string
  format :: videoFormat
  quality :: videoQuality

record AudioFile =
  af_uri :: string
  af_fileName :: string
  af_size :: rat
  af_type :: string
  af_duration :: "rat option"

record VideoLayer =
  layer_segment :: TimelineSegment
  videoElement :: string
  layer_duration :: jsnum

text \<open>The stub of the source returns the clip's URL unchanged.\<close>

definition processBackgroundVideo ::
  "BackgroundVideo \<Rightarrow> jsnum \<Rightarrow> RenderingOptions \<Rightarrow> string" where
  "processBackgroundVideo bv targetDuration options = bv_url bv"

definition prepareVideoLayers :: "TimelineSegment list \<Rightarrow> RenderingOptions \<Rightarrow> VideoLayer list" where
  "prepareVideoLayers timeline options =
     map (\<lambda>segment.
            \<lparr> layer_segment = segment,
              videoElement =
                processBackgroundVideo (backgroundVideo segment)
                  (js_sub (endTime segment) (startTime segment)) options,
              layer_duration = js_sub (endTime segment) (startTime segment) \<rparr>)
         timeline"

record Keyframe =
  kf_time :: rat
  kf_opacity :: rat
  kf_transform :: "string option"
  kf_backgroundColor :: "string option"

record TextAnimation =
  anim_duration :: rat
  anim_startTime :: rat
  anim_endTime :: rat
  keyframes :: "Keyframe list"

definition kf_tr :: "rat \<Rightarrow> rat \<Rightarrow> string \<Rightarrow> Keyframe" where
  "kf_tr t opac tr =
     \<lparr> kf_time = t, kf_opacity = opac, kf_transform = Some tr, kf_backgroundColor = None \<rparr>"

definition kf_bg :: "rat \<Rightarrow> rat \<Rightarrow> string \<Rightarrow> Keyframe" where
  "kf_bg t opac bg =
     \<lparr> kf_time = t, kf_opacity = opac, kf_transform = None, kf_backgroundColor = Some bg \<rparr>"

text \<open>
  \<open>generateTextAnimation\<close>. The \<open>default\<close> arm of the source's \<open>switch\<close> (no keyframes)
  is not reachable for the four values of the type \<open>animationType\<close>.
\<close>

definition generateTextAnimation :: "TranscriptionResult \<Rightarrow> VideoStyle \<Rightarrow> TextAnimation" where
  "generateTextAnimation transcription style =
     (let baseAnimation =
            \<lparr> anim_duration = tr_end transcription - tr_start transcription,
              anim_startTime = tr_start transcription,
              anim_endTime = tr_end transcription,
              keyframes = [] \<rparr>
      in case style_animationType style of
           fade_anim \<Rightarrow>
             baseAnimation\<lparr> keyframes :=
               [kf_tr 0 0 ''scale(1)'', kf_tr 0.1 1 ''scale(1)'',
                kf_tr 0.9 1 ''scale(1)'', kf_tr 1 0 ''scale(1)''] \<rparr>
         | karaoke \<Rightarrow>
             baseAnimation\<lparr> keyframes :=
               [kf_bg 0 1 ''transparent'', kf_bg 0.2 1 ''#FFD700'',
                kf_bg 0.8 1 ''#FFD700'', kf_bg 1 1 ''transparent''] \<rparr>
         | bounce \<Rightarrow>
             baseAnimation\<lparr> keyframes :=
               [kf_tr 0 0 ''scale(0.8) translateY(20px)'',
                kf_tr 0.3 1 ''scale(1.2) translateY(-10px)'',
                kf_tr 0.6 1 ''scale(1) translateY(0px)'',
                kf_tr 1 1 ''scale(1) translateY(0px)''] \<rparr>
         | slide_anim \<Rightarrow>
             baseAnimation\<lparr> keyframes :=
               [kf_tr 0 0 ''translateY(50px)'', kf_tr 0.3 1 ''translateY(0px)'',
                kf_tr 1 1 ''translateY(0px)''] \<rparr>)"

definition calculateTextPosition ::
  "TranscriptionResult \<Rightarrow> VideoStyle \<Rightarrow> RenderingOptions \<Rightarrow> rat \<times> rat" where
  "calculateTextPosition transcription style options =
     (let centerX = res_width options / 2;
          y = (case style_textPosition style of
                 top \<Rightarrow> res_height options * 0.1
               | center \<Rightarrow> res_height options * 0.5
               | bottom \<Rightarrow> res_height options * 0.85)
      in (centerX, y))"

record TextLayer =
  layer_transcription :: TranscriptionResult
  animationData :: TextAnimation
  layer_position :: "rat \<times> rat"

definition prepareTextAnimations ::
  "TranscriptionResult list \<Rightarrow> VideoStyle \<Rightarrow> RenderingOptions \<Rightarrow> TextLayer list" where
  "prepareTextAnimations transcriptions style options =
     map (\<lambda>transcription.
            \<lparr> layer_transcription = transcription,
              animationData = generateTextAnimation transcription style,
              layer_position = calculateTextPosition transcription style options \<rparr>)
         transcriptions"

section \<open>Rendering a video (VideoRenderingModule.ts)\<close>

datatype stage = transcription | styling | background | rendering | export

record RenderingProgress =
  rp_stage :: stage
  rp_progress :: rat
  rp_message :: string

text \<open>
  \<open>updateProgress\<close>: the events delivered to the callback \<open>onProgressUpdate\<close> are kept
  in a list, in the order of the calls. The callback is optional: \<open>hasCallback\<close> says
  whether the module was constructed with one.
\<close>

definition updateProgress ::
  "bool \<Rightarrow> stage \<Rightarrow> rat \<Rightarrow> string \<Rightarrow> RenderingProgress list \<Rightarrow> RenderingProgress list" where
  "updateProgress hasCallback stg progress message events =
     (if hasCallback
      then events @ [\<lparr> rp_stage = stg, rp_progress = min 100 (max 0 progress), rp_message = message \<rparr>]
      else events)"

definition format_name :: "videoFormat \<Rightarrow> string" where
  "format_name f = (case f of mp4 \<Rightarrow> ''mp4'' | mov \<Rightarrow> ''mov'' | webm \<Rightarrow> ''webm'')"

text \<open>
  The three stubs of the source build a file name from \<open>Date.now()\<close>, whose decimal
  text is the parameter \<open>now\<close>; their waiting times are not modelled.
\<close>

definition mergeLayers ::
  "string \<Rightarrow> VideoLayer list \<Rightarrow> TextLayer list \<Rightarrow> AudioFile \<Rightarrow> RenderingOptions \<Rightarrow> string" where
  "mergeLayers now videoLayers textAnimations audioFile options =
     ''temp_composite_'' @ now @ ''.'' @ format_name (format options)"

definition addTransitions ::
  "string \<Rightarrow> string \<Rightarrow> TimelineSegment list \<Rightarrow> RenderingOptions \<Rightarrow> string" where
  "addTransitions now compositeVideo timeline options =
     ''temp_with_transitions_'' @ now @ ''.'' @ format_name (format options)"

definition exportVideo :: "string \<Rightarrow> string \<Rightarrow> RenderingOptions \<Rightarrow> string" where
  "exportVideo now processedVideo options =
     ''final_video_'' @ now @ ''.'' @ format_name (format options)"

text \<open>
  \<open>renderVideo\<close> returns the log of progress events with its outcome: \<open>Inl\<close> the error of
  the rejected promise, \<open>Inr\<close> the output path. \<open>clock k\<close> is the text of the \<open>k\<close>-th reading
  of \<open>Date.now()\<close>. The \<open>catch\<close> block replaces whatever was thrown by the one error
  \<open>Failed to render video. Please try again.\<close> (\<open>RenderFailed\<close>); its \<open>console.error\<close> is
  not modelled. The value is \<open>None\<close> when the loop of \<open>buildTimeline\<close> does not return.
\<close>

definition renderVideo ::
  "bool \<Rightarrow> (nat \<Rightarrow> string) \<Rightarrow> AudioFile \<Rightarrow> TranscriptionResult list \<Rightarrow> BackgroundVideo list \<Rightarrow>
   VideoStyle \<Rightarrow> RenderingOptions \<Rightarrow> (RenderingProgress list \<times> (error + string)) option" where
  "renderVideo hasCallback clock audioFile transcriptions backgroundVideos style options =
     (let log0 = updateProgress hasCallback rendering 0 ''Starting video rendering...'' [];
          log1 = updateProgress hasCallback rendering 10 ''Building timeline...'' log0
      in case buildTimeline transcriptions backgroundVideos style of
           None \<Rightarrow> None
         | Some (Inl e) \<Rightarrow> Some (log1, Inl RenderFailed)
         | Some (Inr timeline) \<Rightarrow>
             (let log2 = updateProgress hasCallback rendering 25 ''Preparing video layers...'' log1;
                  videoLayers = prepareVideoLayers timeline options;
                  log3 = updateProgress hasCallback rendering 40 ''Generating text animations...'' log2;
                  textAnimations = prepareTextAnimations transcriptions style options;
                  log4 = updateProgress hasCallback rendering 60 ''Merging video layers...'' log3;
                  compositeVideo = mergeLayers (clock 0) videoLayers textAnimations audioFile options;
                  log5 = updateProgress hasCallback rendering 80 ''Adding transitions...'' log4;
                  finalVideo = addTransitions (clock 1) compositeVideo timeline options;
                  log6 = updateProgress hasCallback rendering 95 ''Exporting final video...'' log5;
                  outputPath = exportVideo (clock 2) finalVideo options;
                  log7 = updateProgress hasCallback rendering 100 ''Video rendering complete!'' log6
              in Some (log7, Inr outputPath)))"

section \<open>The rendering queue (VideoRenderingModule.ts)\<close>

text \<open>
  A queued job. Its \<open>onComplete\<close> and \<open>onError\<close> are the \<open>resolve\<close> and \<open>reject\<close> of the
  promise \<open>addJob\<close> returns: the model records their calls in \<open>settled\<close>.
\<close>

record Job =
  job_id :: string
  job_audioFile :: AudioFile
  job_transcriptions :: "TranscriptionResult list"
  job_backgroundVideos :: "BackgroundVideo list"
  job_style :: VideoStyle
  job_options :: RenderingOptions

text \<open>
  The fields \<open>queue\<close> and \<open>isProcessing\<close> are the object's. The others are the state of
  the event loop around it: \<open>running\<close> holds the jobs whose \<open>renderVideo\<close> is awaited,
  \<open>timers\<close> counts the pending \<open>setTimeout\<close> callbacks, and \<open>settled\<close> lists the calls of
  \<open>onComplete\<close> (\<open>Inr\<close>) and \<open>onError\<close> (\<open>Inl\<close>) in the order they were made.
\<close>

record QueueState =
  queue :: "Job list"
  isProcessing :: bool
  running :: "Job list"
  timers :: nat
  settled :: "(string \<times> (error + string)) list"

definition initialQueue :: QueueState where
  "initialQueue = \<lparr> queue = [], isProcessing = False, running = [], timers = 0, settled = [] \<rparr>"

text \<open>\<open>processQueue\<close>, up to its \<open>await\<close>.\<close>

definition processQueue :: "QueueState \<Rightarrow> QueueState" where
  "processQueue s =
     (if length (queue s) = 0 then s\<lparr> isProcessing := False \<rparr>
      else s\<lparr> isProcessing := True, queue := tl (queue s),
              running := running s @ [hd (queue s)] \<rparr>)"

definition addJob :: "Job \<Rightarrow> QueueState \<Rightarrow> QueueState" where
  "addJob job s =
     (let s1 = s\<lparr> queue := queue s @ [job] \<rparr>
      in if \<not> isProcessing s1 then processQueue s1 else s1)"

text \<open>
  \<open>processQueue\<close>, from its \<open>await\<close> on, for the \<open>k\<close>-th awaited job: the promise of
  \<open>renderVideo\<close> settles, the job's callback is called, and the next pass is scheduled
  with \<open>setTimeout\<close>. The queue's renderer is constructed without a progress callback.
\<close>

definition settle :: "nat \<Rightarrow> (nat \<Rightarrow> string) \<Rightarrow> QueueState \<Rightarrow> QueueState" where
  "settle k clock s =
     (if k < length (running s)
      then (let job = running s ! k
            in case renderVideo False clock (job_audioFile job) (job_transcriptions job)
                      (job_backgroundVideos job) (job_style job) (job_options job) of
                 None \<Rightarrow> s
               | Some (events, outcome) \<Rightarrow>
                   s\<lparr> running := take k (running s) @ drop (Suc k) (running s),
                      settled := settled s @ [(job_id job, outcome)],
                      timers := timers s + 1 \<rparr>)
      else s)"

text \<open>A pending timer fires: \<open>() => this.processQueue()\<close>.\<close>

definition timerFires :: "QueueState \<Rightarrow> QueueState" where
  "timerFires s = (if 0 < timers s then processQueue (s\<lparr> timers := timers s - 1 \<rparr>) else s)"

text \<open>
  What can happen to a queue: a caller adds a job, an awaited rendering settles, a timer
  fires. (\<open>clearQueue\<close>, which drops the waiting jobs, is left out.)
\<close>

datatype event = AddJob Job | Settle nat "nat \<Rightarrow> string" | TimerFires

fun step :: "QueueState \<Rightarrow> event \<Rightarrow> QueueState" where
  "step s (AddJob job) = addJob job s"
| "step s (Settle k clock) = settle k clock s"
| "step s TimerFires = timerFires s"

definition run :: "event list \<Rightarrow> QueueState" where
  "run evs = foldl step initialQueue evs"

fun submitted :: "event list \<Rightarrow> string list" where
  "submitted [] = []"
| "submitted (AddJob job # evs) = job_id job # submitted evs"
| "submitted (e # evs) = submitted evs"

definition getQueueStatus :: "QueueState \<Rightarrow> nat \<times> nat" where
  "getQueueStatus s =
     (if isProcessing s then 1 else 0, length (queue s) + (if isProcessing s then 1 else 0))"

section \<open>Keywords (VisualBackgroundGenerator.ts)\<close>

text \<open>
  A string is a list of 8-bit characters, read as the code units below 256. Of
  \<open>toLowerCase\<close> only the effect on the letters \<open>A\<close> to \<open>Z\<close> is modelled: every other
  character that it could change is outside \<open>\w\<close> and \<open>\s\<close>, and is replaced by a
  blank in the next step of \<open>extractKeywords\<close> whatever its case.
\<close>

definition toLowerCase_char :: "char \<Rightarrow> char" where
  "toLowerCase_char c =
     (if 65 \<le> (of_char c :: nat) \<and> (of_char c :: nat) \<le> 90
      then char_of ((of_char c :: nat) + 32) else c)"

definition toLowerCase :: "string \<Rightarrow> string" where
  "toLowerCase s = map toLowerCase_char s"

text \<open>The class \<open>\w\<close>: a letter, a digit or the underscore.\<close>

definition isWordChar :: "char \<Rightarrow> bool" where
  "isWordChar c =
     (let n = (of_char c :: nat)
      in (65 \<le> n \<and> n \<le> 90) \<or> (97 \<le> n \<and> n \<le> 122) \<or> (48 \<le> n \<and> n \<le> 57) \<or> n = 95)"

text \<open>
  The class \<open>\s\<close> below 256: tab, line feed, vertical tab, form feed, carriage return,
  space and the no-break space.
\<close>

definition isSpaceChar :: "char \<Rightarrow> bool" where
  "isSpaceChar c = (let n = (of_char c :: nat) in (9 \<le> n \<and> n \<le> 13) \<or> n = 32 \<or> n = 160)"

text \<open>\<open>xs.join(' ')\<close>.\<close>

fun join_blank :: "string list \<Rightarrow> string" where
  "join_blank [] = []"
| "join_blank [x] = x"
| "join_blank (x # y # ys) = x @ '' '' @ join_blank (y # ys)"

text \<open>\<open>s.replace(/[^\w\s]/g, ' ')\<close>.\<close>

definition replace_nonword :: "string \<Rightarrow> string" where
  "replace_nonword s = map (\<lambda>c. if isWordChar c \<or> isSpaceChar c then c else CHR '' '') s"

text \<open>
  \<open>s.split(/\s+/)\<close>: the pieces between the maximal runs of white space, with an empty
  piece before a leading run and after a trailing one; \<open>cur\<close> is the piece being read.
\<close>

function split_from :: "string \<Rightarrow> string \<Rightarrow> string list" where
  "split_from cur [] = [cur]"
| "split_from cur (c # cs) =
     (if isSpaceChar c then cur # split_from [] (dropWhile isSpaceChar cs)
      else split_from (cur @ [c]) cs)"
  by pat_completeness auto
termination
  by (relation "measure (\<lambda>(cur, s). length s)")
     (auto simp: length_dropWhile_le less_Suc_eq_le)

definition split_ws :: "string \<Rightarrow> string list" where
  "split_ws s = split_from [] s"

definition stopWords :: "string list" where
  "stopWords =
     [''the'', ''a'', ''an'', ''and'', ''or'', ''but'', ''in'', ''on'', ''at'', ''to'', ''for'',
      ''of'', ''with'', ''by'', ''is'', ''are'', ''was'', ''were'', ''be'', ''been'', ''being'',
      ''have'', ''has'', ''had'', ''do'', ''does'', ''did'', ''will'', ''would'', ''could'',
      ''should'', ''may'', ''might'', ''must'', ''can'', ''i'', ''you'', ''he'', ''she'',
      ''it'', ''we'', ''they'', ''me'', ''him'', ''her'', ''us'', ''them'', ''my'', ''your'',
      ''his'', ''her'', ''its'', ''our'', ''their'', ''this'', ''that'', ''these'', ''those'']"

text \<open>
  The lower-cased text of all spans, the pieces it is split into, and the words
  \<open>extractKeywords\<close> keeps of them.
\<close>

definition fullText :: "TranscriptionResult list \<Rightarrow> string" where
  "fullText transcriptions = toLowerCase (join_blank (map tr_text transcriptions))"

definition textWords :: "TranscriptionResult list \<Rightarrow> string list" where
  "textWords transcriptions = split_ws (replace_nonword (fullText transcriptions))"

definition keptWords :: "TranscriptionResult list \<Rightarrow> string list" where
  "keptWords transcriptions =
     filter (\<lambda>word. 2 < length word \<and> word \<notin> set stopWords) (textWords transcriptions)"

text \<open>
  The \<open>Map\<close> from a word to its count is an association list in insertion order:
  \<open>AList.update\<close> overwrites a key in place and appends a new one, as \<open>Map.set\<close> does.
\<close>

definition countWord :: "(string \<times> nat) list \<Rightarrow> string \<Rightarrow> (string \<times> nat) list" where
  "countWord wordCount word =
     AList.update word ((case map_of wordCount word of None \<Rightarrow> 0 | Some n \<Rightarrow> n) + 1) wordCount"

definition countWords :: "string list \<Rightarrow> (string \<times> nat) list" where
  "countWords ws = foldl countWord [] ws"

text \<open>
  \<open>sort((a, b) => b[1] - a[1])\<close>: a stable sort by falling count, then the first ten
  words.
\<close>

definition extractKeywords :: "TranscriptionResult list \<Rightarrow> string list" where
  "extractKeywords transcriptions =
     map fst (take 10 (sort_key (\<lambda>e. - int (snd e)) (countWords (keptWords transcriptions))))"

section \<open>Inputs of the examples\<close>

definition exampleStyle :: VideoStyle where
  "exampleStyle =
     \<lparr> fontFamily = ''Arial'', fontSize = 24, fontColor = ''#FFFFFF'',
       backgroundColor = ''#000000'', style_theme = city, style_animationType = karaoke,
       style_textPosition = bottom \<rparr>"

definition exampleClip :: BackgroundVideo where
  "exampleClip =
     \<lparr> bv_id = ''clip0'', bv_url = ''clip0.mp4'', bv_keywords = [], bv_duration = 5,
       bv_thumbnail = ''clip0.jpg'', bv_source = stock \<rparr>"

definition exampleSpan :: "string \<Rightarrow> rat \<Rightarrow> rat \<Rightarrow> TranscriptionResult" where
  "exampleSpan txt a b =
     \<lparr> tr_text = txt, tr_start = a, tr_end = b, tr_confidence = None \<rparr>"

definition exampleOptions :: RenderingOptions where
  "exampleOptions =
     \<lparr> res_width = 1920, res_height = 1080, framerate = 30, bitrate = ''5M'', format = mp4,
       quality = final \<rparr>"

definition exampleAudio :: AudioFile where
  "exampleAudio =
     \<lparr> af_uri = ''song.mp3'', af_fileName = ''song.mp3'', af_size = 1000,
       af_type = ''audio/mpeg'', af_duration = None \<rparr>"

definition exampleJob :: "string \<Rightarrow> BackgroundVideo list \<Rightarrow> Job" where
  "exampleJob i bvs =
     \<lparr> job_id = i, job_audioFile = exampleAudio,
       job_transcriptions = [exampleSpan ''la'' 0 25], job_backgroundVideos = bvs,
       job_style = exampleStyle, job_options = exampleOptions \<rparr>"

definition exampleClock :: "nat \<Rightarrow> string" where
  "exampleClock k = ''1700000000000''"

section \<open>Notions used in the statements and the proofs\<close>

text \<open>The number of passes of a loop \<open>for (i = 0; i < c; i++)\<close> whose bound is not \<open>Infinity\<close>.\<close>

definition passes :: "jsnum \<Rightarrow> nat" where
  "passes c = (case c of Num q \<Rightarrow> nat \<lceil>q\<rceil> | _ \<Rightarrow> 0)"

text \<open>
  The queue's invariant: at most one job is awaited, at most one timer is pending and
  none while a job is awaited, \<open>isProcessing\<close> is set exactly while a job is awaited or
  a timer is pending, and no job waits in an idle queue.
\<close>

definition queue_ok :: "QueueState \<Rightarrow> bool" where
  "queue_ok s =
     (length (running s) \<le> 1 \<and> timers s \<le> 1 \<and> (running s \<noteq> [] \<longrightarrow> timers s = 0)
      \<and> isProcessing s = (running s \<noteq> [] \<or> 0 < timers s)
      \<and> (\<not> isProcessing s \<longrightarrow> queue s = []))"

text \<open>The ids of the jobs called back, then of the awaited ones, then of the waiting ones.\<close>

definition served_order :: "QueueState \<Rightarrow> string list" where
  "served_order s = map fst (settled s) @ map job_id (running s) @ map job_id (queue s)"

definition unsettled :: "QueueState \<Rightarrow> nat" where
  "unsettled s = length (queue s) + length (running s) + timers s"

text \<open>
  Letting a queue run for \<open>m\<close> rounds with no new job: each round, the awaited rendering
  settles and the timer fires.
\<close>

definition drain :: "(nat \<Rightarrow> string) \<Rightarrow> nat \<Rightarrow> event list" where
  "drain clock m = concat (replicate m [Settle 0 clock, TimerFires])"

section \<open>The rounding\<close>

lemma pow2_powi: "pow2 e = power_int 2 e"
  by (simp add: pow2_def power_int_def power_one_over inverse_eq_divide)

lemma pow2_pos: "0 < pow2 e"
  by (simp add: pow2_def)

lemma pow2_add: "pow2 (i + j) = pow2 i * pow2 j"
  by (simp add: pow2_powi power_int_add)

lemma pow2_diff: "pow2 (i - j) = pow2 i / pow2 j"
  by (simp add: pow2_powi power_int_diff)

lemma bitlen_nonpos: "n \<le> 0 \<Longrightarrow> bitlen n = 0"
  by (subst bitlen.simps) simp

lemma bitlen_pos: "0 < n \<Longrightarrow> bitlen n = 1 + bitlen (n div 2)"
  by (subst bitlen.simps) simp

lemma bitlen_bounds:
  "0 < n \<Longrightarrow> 0 < bitlen n \<and> pow2 (bitlen n - 1) \<le> of_int n \<and> of_int n < pow2 (bitlen n)"
proof (induction n rule: bitlen.induct)
  case (1 n)
  show ?case
  proof (cases "n = 1")
    case True
    then show ?thesis by (simp add: bitlen_pos bitlen_nonpos pow2_def)
  next
    case False
    with "1.prems" have m: "0 < n div 2" by linarith
    from "1.IH" [OF "1.prems" m]
    have ih: "0 < bitlen (n div 2)" "pow2 (bitlen (n div 2) - 1) \<le> of_int (n div 2)"
      "rat_of_int (n div 2) < pow2 (bitlen (n div 2))"
      by simp_all
    have bl: "bitlen n = 1 + bitlen (n div 2)" using "1.prems" by (rule bitlen_pos)
    have lo: "2 * (n div 2) \<le> n" and hi: "n < 2 * (n div 2 + 1)" by presburger+
    have "pow2 (bitlen n - 1) = pow2 1 * pow2 (bitlen (n div 2) - 1)"
      unfolding bl pow2_add [symmetric] by simp
    also have "\<dots> \<le> 2 * of_int (n div 2)" using ih(2) by (simp add: pow2_def)
    also have "\<dots> \<le> of_int n" using lo by (metis of_int_le_iff of_int_mult of_int_numeral)
    finally have a: "pow2 (bitlen n - 1) \<le> of_int n" .
    have int_pow: "pow2 (bitlen (n div 2)) = rat_of_int (2 ^ nat (bitlen (n div 2)))"
      using ih(1) by (simp add: pow2_def)
    have "n div 2 < 2 ^ nat (bitlen (n div 2))"
      using ih(3) unfolding int_pow by (simp only: of_int_less_iff)
    then have "n div 2 + 1 \<le> 2 ^ nat (bitlen (n div 2))" by simp
    then have "rat_of_int (n div 2 + 1) \<le> pow2 (bitlen (n div 2))"
      unfolding int_pow by (simp only: of_int_le_iff)
    then have "rat_of_int (2 * (n div 2 + 1)) \<le> pow2 1 * pow2 (bitlen (n div 2))"
      by (simp add: pow2_def)
    also have "\<dots> = pow2 (bitlen n)" unfolding bl pow2_add [symmetric] by simp
    finally have "rat_of_int (2 * (n div 2 + 1)) \<le> pow2 (bitlen n)" .
    moreover have "rat_of_int n < of_int (2 * (n div 2 + 1))" using hi by (simp only: of_int_less_iff)
    ultimately have b: "rat_of_int n < pow2 (bitlen n)" by linarith
    from a b bl ih(1) show ?thesis by simp
  qed
qed

lemma exponent_bounds:
  assumes "0 < x"
  shows "pow2 (exponent x) \<le> x \<and> x < pow2 (exponent x + 1)"
proof -
  obtain a b where q: "quotient_of x = (a, b)" by (cases "quotient_of x")
  then have b: "0 < b" and x: "x = of_int a / of_int b"
    by (simp_all add: quotient_of_denom_pos quotient_of_div)
  from assms x b have a: "0 < a" by (simp add: zero_less_divide_iff)
  note ba = bitlen_bounds [OF a] and bb = bitlen_bounds [OF b]
  define e0 where "e0 = bitlen a - bitlen b"
  have ex: "exponent x = (if pow2 e0 \<le> x then e0 else e0 - 1)"
    by (simp add: exponent_def q e0_def Let_def)
  have bpos: "0 < rat_of_int b" using b by simp
  have lo: "pow2 (e0 - 1) \<le> x"
  proof -
    have "pow2 (e0 - 1) = pow2 (bitlen a - 1) / pow2 (bitlen b)"
      unfolding e0_def pow2_diff [symmetric] by (simp add: algebra_simps)
    also have "\<dots> \<le> of_int a / pow2 (bitlen b)"
      using ba pow2_pos [of "bitlen b"] by (simp add: divide_right_mono)
    also have "\<dots> \<le> of_int a / of_int b"
      using bb a bpos by (intro divide_left_mono) (auto simp: pow2_pos)
    finally show ?thesis by (simp add: x)
  qed
  have hi: "x < pow2 (e0 + 1)"
  proof -
    have "of_int a / of_int b < pow2 (bitlen a) / of_int b"
      using ba bpos by (simp add: divide_strict_right_mono)
    also have "\<dots> \<le> pow2 (bitlen a) / pow2 (bitlen b - 1)"
      using bb bpos by (intro divide_left_mono) (auto simp: pow2_pos less_imp_le)
    also have "\<dots> = pow2 (e0 + 1)"
      unfolding e0_def pow2_diff [symmetric] by (simp add: algebra_simps)
    finally show ?thesis by (simp add: x)
  qed
  show ?thesis
  proof (cases "pow2 e0 \<le> x")
    case True
    with hi show ?thesis by (simp add: ex)
  next
    case False
    with lo show ?thesis by (simp add: ex)
  qed
qed

lemma round_half_even_near: "\<bar>of_int (round_half_even y) - y\<bar> \<le> 1 / 2"
proof -
  have "of_int \<lfloor>y\<rfloor> \<le> y" "y < of_int \<lfloor>y\<rfloor> + 1" by linarith+
  then show ?thesis by (auto simp: round_half_even_def Let_def)
qed

lemma round_half_even_int: "round_half_even (of_int k) = k"
  by (simp add: round_half_even_def)

text \<open>
  In the normal range the rounding moves a number by at most half a unit in the last
  place, which is at most the \<open>2^53\<close>-th part of the number.
\<close>

lemma binary64_error:
  assumes "pow2 (- 1022) \<le> x"
  shows "\<bar>binary64 x - x\<bar> \<le> x / 2 ^ 53"
proof -
  have xpos: "0 < x" using assms pow2_pos [of "- 1022"] by linarith
  define e where "e = exponent x"
  define p where "p = e - 52"
  from exponent_bounds [OF xpos] have eb: "pow2 e \<le> x" "x < pow2 (e + 1)" by (simp_all add: e_def)
  have "- 1022 \<le> e"
  proof (rule ccontr)
    assume "\<not> - 1022 \<le> e"
    then have "e + 1 \<le> - 1022" by simp
    then have "pow2 (e + 1) \<le> pow2 (- 1022)"
      unfolding pow2_powi by (intro power_int_increasing) auto
    with eb(2) assms show False by linarith
  qed
  then have mx: "max (e - 52) (- 1074) = p" by (simp add: p_def)
  have b64: "binary64 x = of_int (round_half_even (x / pow2 p)) * pow2 p"
    using xpos by (simp add: binary64_def Let_def e_def [symmetric] mx)
  have pp: "0 < pow2 p" by (rule pow2_pos)
  have "\<bar>binary64 x - x\<bar> = \<bar>of_int (round_half_even (x / pow2 p)) - x / pow2 p\<bar> * pow2 p"
  proof -
    have "binary64 x - x = (of_int (round_half_even (x / pow2 p)) - x / pow2 p) * pow2 p"
      using pp by (simp add: b64 algebra_simps)
    then show ?thesis using pp by (simp add: abs_mult)
  qed
  also have "\<dots> \<le> 1 / 2 * pow2 p"
    using round_half_even_near [of "x / pow2 p"] pp by (intro mult_right_mono) auto
  also have "\<dots> = pow2 e / 2 ^ 53"
  proof -
    have "pow2 e = pow2 p * pow2 52" unfolding p_def pow2_add [symmetric] by simp
    then show ?thesis by (simp add: pow2_def)
  qed
  also have "\<dots> \<le> x / 2 ^ 53" using eb(1) by (simp add: divide_right_mono)
  finally show ?thesis .
qed

text \<open>
  Examples: \<open>0.1\<close> and \<open>61 / 7\<close> as binary64 has them, a number that is kept, two ties
  above \<open>2^53\<close> that go to the even significand, and a negative number.
\<close>

lemma binary64_examples:
  "binary64 (1 / 10) = 3602879701896397 / 2 ^ 55
   \<and> binary64 (61 / 7) = 4905706736957147 / 2 ^ 49
   \<and> binary64 61 = 61
   \<and> binary64 (2 ^ 53 + 1) = 2 ^ 53
   \<and> binary64 (2 ^ 53 + 3) = 2 ^ 53 + 4
   \<and> binary64 (- (1 / 3)) = - (6004799503160661 / 2 ^ 54)"
  by code_simp

section \<open>The loop of the timeline in closed form\<close>

lemma foldl_js_max2_Num:
  "foldl js_max2 (Num a) (map Num xs) = Num (Max (insert a (set xs)))"
proof (induction xs arbitrary: a)
  case Nil
  then show ?case by simp
next
  case (Cons x xs)
  have "insert (max a x) (set xs) \<noteq> {}" by simp
  have "Max (insert a (insert x (set xs))) = Max (insert (max a x) (set xs))"
    by (cases "set xs = {}") (auto simp: max.assoc)
  with Cons show ?case by (auto simp: max_def)
qed

lemma Math_max_Num:
  "Math_max (map Num xs) = (if xs = [] then NegInf else Num (Max (set xs)))"
proof (cases xs)
  case Nil
  then show ?thesis by (simp add: Math_max_def)
next
  case (Cons x ys)
  then show ?thesis by (simp add: Math_max_def foldl_js_max2_Num)
qed

lemma totalDuration_Nil: "totalDuration [] = NegInf"
  by (simp add: totalDuration_def Math_max_def)

lemma totalDuration_Num:
  "ts \<noteq> [] \<Longrightarrow> totalDuration ts = Num (Max (tr_end ` set ts))"
proof -
  assume "ts \<noteq> []"
  have "map (\<lambda>t. Num (tr_end t)) ts = map Num (map tr_end ts)" by simp
  with \<open>ts \<noteq> []\<close> show ?thesis
    unfolding totalDuration_def by (simp only: Math_max_Num) simp
qed

lemma js_lt_passes: "c \<noteq> PosInf \<Longrightarrow> js_lt (Num (of_nat i)) c = (i < passes c)"
proof (cases c)
  case (Num q)
  have "(of_nat i < q) = (int i < \<lceil>q\<rceil>)" by (simp add: less_ceiling_iff)
  then show ?thesis using Num by (auto simp: passes_def)
qed (auto simp: passes_def)

lemma createSegments_map:
  assumes "c \<noteq> PosInf"
  shows "i \<le> passes c \<Longrightarrow> createSegments ts bvs st T c d i acc =
     Some (acc @ map (makeSegment ts bvs st T c d) [i..<passes c])"
proof (induction "passes c - i" arbitrary: i acc)
  case 0
  then have "i = passes c" by simp
  then have "\<not> js_lt (Num (of_nat i)) c" using assms by (simp add: js_lt_passes)
  then show ?case using \<open>i = passes c\<close> by (subst createSegments.simps) simp
next
  case (Suc k)
  then have lt: "i < passes c" by simp
  then have "js_lt (Num (of_nat i)) c" using assms by (simp add: js_lt_passes)
  moreover have "createSegments ts bvs st T c d (i + 1) (acc @ [makeSegment ts bvs st T c d i]) =
     Some ((acc @ [makeSegment ts bvs st T c d i]) @ map (makeSegment ts bvs st T c d) [i + 1..<passes c])"
    using Suc lt by (intro Suc.hyps(1)) auto
  ultimately show ?case using lt
    by (subst createSegments.simps) (simp add: upt_conv_Cons)
qed

lemma segmentCount_not_PosInf: "segmentCount ts \<noteq> PosInf"
proof (cases "ts = []")
  case True
  then show ?thesis by (simp add: segmentCount_def totalDuration_Nil targetSegmentDuration_def)
next
  case False
  then show ?thesis by (simp add: segmentCount_def totalDuration_Num targetSegmentDuration_def)
qed

lemma buildTimeline_map:
  "bvs \<noteq> [] \<Longrightarrow> buildTimeline ts bvs st =
     Some (Inr (map (makeSegment ts bvs st (totalDuration ts) (segmentCount ts) (actualSegmentDuration ts))
                  [0..<passes (segmentCount ts)]))"
  by (simp add: buildTimeline_def createSegments_map [OF segmentCount_not_PosInf])

section \<open>The timeline build and its clips (C4, C2)\<close>

text \<open>
  C4. \<open>buildTimeline\<close> throws its error \<open>No background videos available for rendering\<close>
  exactly when the list of clips is empty, and returns a timeline exactly when it is
  not. The error is thrown before anything else is computed: in \<open>renderVideo\<close> the job
  then ends right after the progress event \<open>Building timeline...\<close>, with no layer
  prepared and none of the stages \<open>mergeLayers\<close>, \<open>addTransitions\<close>, \<open>exportVideo\<close> begun.
\<close>

theorem no_clips_error_iff:
  "(buildTimeline ts bvs st = Some (Inl NoBackgroundVideos)) = (bvs = [])
   \<and> (\<exists>tline. buildTimeline ts bvs st = Some (Inr tline)) = (bvs \<noteq> [])
   \<and> (bvs = [] \<longrightarrow>
        renderVideo cb clock af ts bvs st opts =
          Some (updateProgress cb rendering 10 ''Building timeline...''
                  (updateProgress cb rendering 0 ''Starting video rendering...'' []),
                Inl RenderFailed))"
proof (cases "bvs = []")
  case True
  then show ?thesis by (simp add: buildTimeline_def renderVideo_def)
next
  case False
  then show ?thesis by (simp add: buildTimeline_map)
qed

text \<open>C4 at a job with one span and no clip.\<close>

theorem no_clips_error_iff_witness:
  "buildTimeline [exampleSpan ''la'' 0 25] [] exampleStyle = Some (Inl NoBackgroundVideos)
   \<and> renderVideo True exampleClock exampleAudio [exampleSpan ''la'' 0 25] [] exampleStyle
         exampleOptions =
       Some ([\<lparr> rp_stage = rendering, rp_progress = 0,
                  rp_message = ''Starting video rendering...'' \<rparr>,
              \<lparr> rp_stage = rendering, rp_progress = 10,
                  rp_message = ''Building timeline...'' \<rparr>],
             Inl RenderFailed)"
  using no_clips_error_iff [of "[exampleSpan ''la'' 0 25]" "[]" exampleStyle True exampleClock
      exampleAudio exampleOptions]
  by (simp add: updateProgress_def)

text \<open>
  C2, as the code has it. With an empty transcript and at least one clip,
  \<open>buildTimeline\<close> does not fail and returns the empty timeline: no segment at all.
\<close>

theorem empty_transcript_empty_timeline:
  "bvs \<noteq> [] \<Longrightarrow> buildTimeline [] bvs st = Some (Inr [])"
  by (simp add: buildTimeline_map segmentCount_def totalDuration_Nil targetSegmentDuration_def
      passes_def)

text \<open>C2 as amended, at one clip.\<close>

theorem empty_transcript_empty_timeline_witness:
  "[exampleClip] \<noteq> [] \<and> buildTimeline [] [exampleClip] exampleStyle = Some (Inr [])"
  using empty_transcript_empty_timeline [of "[exampleClip]" exampleStyle] by simp

text \<open>
  C2 as stated fails: for the empty transcript \<open>Math.max()\<close> is \<open>-Infinity\<close>, not \<open>0\<close>, so
  is the segment count, the loop body never runs, and the timeline returned has no
  segment where the claim has one segment \<open>[0,0]\<close>.
\<close>

theorem empty_transcript_not_one_segment:
  "totalDuration [] = NegInf
   \<and> segmentCount [] = NegInf
   \<and> buildTimeline [] [exampleClip] exampleStyle = Some (Inr [])
   \<and> \<not> (\<exists>s. buildTimeline [] [exampleClip] exampleStyle = Some (Inr [s]))"
  by (simp add: buildTimeline_map segmentCount_def totalDuration_Nil targetSegmentDuration_def
      passes_def)

section \<open>The last segment and the end of the track (C1, C3)\<close>

text \<open>
  C1 fails on the code. For one span \<open>[0, 61]\<close> the track lasts \<open>61\<close>, there are
  \<open>ceil(61 / 10) = 7\<close> segments, and \<open>actualSegmentDuration\<close> is \<open>61 / 7\<close> rounded,
  \<open>8.714285714285714\<close>. The seventh segment ends at \<open>Math.min(7 * 8.714285714285714, 61)\<close>,
  and that product rounds to \<open>61 - 2^-47\<close>, which is \<open>60.99999999999999\<close>: the last segment
  ends below \<open>totalDuration\<close>, and the segments do not cover the end of the track.
\<close>

theorem last_segment_ends_below_totalDuration:
  "totalDuration [exampleSpan ''la'' 0 61] = Num 61
   \<and> segmentCount [exampleSpan ''la'' 0 61] = Num 7
   \<and> actualSegmentDuration [exampleSpan ''la'' 0 61] = Num (4905706736957147 / 2 ^ 49)
   \<and> map_option (map_sum id (map endTime))
         (buildTimeline [exampleSpan ''la'' 0 61] [exampleClip] exampleStyle)
       = Some (Inr [Num (4905706736957147 / 2 ^ 49), Num (4905706736957147 / 2 ^ 48),
                    Num (919820013179465 / 2 ^ 45), Num (4905706736957147 / 2 ^ 47),
                    Num (3066066710598217 / 2 ^ 46), Num (919820013179465 / 2 ^ 44),
                    Num (61 - 1 / 2 ^ 47)])
   \<and> js_lt (Num (61 - 1 / 2 ^ 47)) (totalDuration [exampleSpan ''la'' 0 61])"
  by code_simp

text \<open>
  C3 fails on the code, for the same reason. Of the two spans \<open>[0, 61]\<close> and
  \<open>[61 - 2^-47, 61]\<close>, both with \<open>end > start\<close> and \<open>start >= 0\<close>, the second starts exactly
  where the last segment ends; the test \<open>t.start < endTime\<close> fails for it in the last
  segment as in every other, and it is in the \<open>lyrics\<close> of no segment.
\<close>

theorem span_at_the_end_in_no_segment:
  "tr_start (exampleSpan ''li'' (61 - 1 / 2 ^ 47) 61) < tr_end (exampleSpan ''li'' (61 - 1 / 2 ^ 47) 61)
   \<and> 0 \<le> tr_start (exampleSpan ''li'' (61 - 1 / 2 ^ 47) 61)
   \<and> binary64 (61 - 1 / 2 ^ 47) = 61 - 1 / 2 ^ 47
   \<and> map_option (map_sum id (\<lambda>tline. endTime (last tline)))
         (buildTimeline [exampleSpan ''la'' 0 61, exampleSpan ''li'' (61 - 1 / 2 ^ 47) 61]
            [exampleClip] exampleStyle)
       = Some (Inr (Num (tr_start (exampleSpan ''li'' (61 - 1 / 2 ^ 47) 61))))
   \<and> map_option (map_sum id (map (\<lambda>s. map tr_text (lyrics s))))
         (buildTimeline [exampleSpan ''la'' 0 61, exampleSpan ''li'' (61 - 1 / 2 ^ 47) 61]
            [exampleClip] exampleStyle)
       = Some (Inr [[''la''], [], [], [], [], [], []])"
  by code_simp

section \<open>Transitions of the first and the last segment (C5)\<close>

text \<open>
  C5, as the code has it. In every timeline \<open>buildTimeline\<close> returns, for every style,
  the first segment fades in and has the transition-out \<open>none\<close>, whether or not it is
  the only segment; and when there are two segments or more, the last one has the
  transition-in \<open>none\<close> and the transition-out \<open>fade\<close>.
\<close>

theorem first_and_last_transitions:
  assumes "buildTimeline ts bvs st = Some (Inr tline)" and "tline \<noteq> []"
  shows "transitions (hd tline) = (fade, none)
         \<and> (1 < length tline \<longrightarrow> transitions (last tline) = (none, fade))"
proof -
  have bvs: "bvs \<noteq> []" using assms(1) by (auto simp: buildTimeline_def)
  define c where "c = segmentCount ts"
  define n where "n = passes c"
  let ?mk = "makeSegment ts bvs st (totalDuration ts) c (actualSegmentDuration ts)"
  have tline: "tline = map ?mk [0..<n]"
    using assms(1) bvs by (simp add: buildTimeline_map c_def n_def)
  with assms(2) have npos: "0 < n" by simp
  have cn: "c = Num (of_nat n)"
  proof (cases c)
    case (Num q)
    with npos have "0 < \<lceil>q\<rceil>" by (simp add: n_def passes_def)
    moreover have "\<exists>z. q = of_int z"
    proof (cases "ts = []")
      case True
      then show ?thesis using Num
        by (simp add: c_def segmentCount_def totalDuration_Nil targetSegmentDuration_def)
    next
      case False
      then show ?thesis using Num
        by (auto simp: c_def segmentCount_def totalDuration_Num targetSegmentDuration_def)
    qed
    ultimately show ?thesis using Num by (auto simp: n_def passes_def)
  qed (use npos in \<open>auto simp: n_def passes_def\<close>)
  have first: "transitions (hd tline) = (fade, none)"
    using npos by (simp add: tline hd_map hd_upt makeSegment_def Let_def getTransitionsForSegment_def)
  have last: "transitions (last tline) = (none, fade)" if "1 < length tline"
  proof -
    from that have n2: "1 < n" by (simp add: tline)
    have "last tline = ?mk (n - 1)" using npos by (simp add: tline last_map)
    moreover have "js_eq (Num (of_nat (n - 1))) (js_sub c (Num 1))"
      using n2 by (simp add: cn js_eq_def js_sub_def of_nat_diff)
    ultimately show ?thesis
      using n2 by (simp add: makeSegment_def Let_def getTransitionsForSegment_def)
  qed
  from first last show ?thesis by blast
qed

text \<open>C5 as amended, at one span \<open>[0, 25]\<close> and one clip: three segments.\<close>

theorem first_and_last_transitions_witness:
  "\<exists>tline. buildTimeline [exampleSpan ''la'' 0 25] [exampleClip] exampleStyle = Some (Inr tline)
      \<and> length tline = 3
      \<and> transitions (hd tline) = (fade, none) \<and> transitions (last tline) = (none, fade)"
proof -
  have ev: "map_option (map_sum id length)
      (buildTimeline [exampleSpan ''la'' 0 25] [exampleClip] exampleStyle) = Some (Inr 3)"
    by code_simp
  then obtain tline where
    tline: "buildTimeline [exampleSpan ''la'' 0 25] [exampleClip] exampleStyle = Some (Inr tline)"
    and len: "length tline = 3"
    by (cases "buildTimeline [exampleSpan ''la'' 0 25] [exampleClip] exampleStyle")
       (auto simp: map_sum_def split: sum.splits)
  then have ne: "tline \<noteq> []" by auto
  from first_and_last_transitions [OF tline ne] len tline show ?thesis by simp
qed

text \<open>
  C5 as stated fails. The out-transitions of the three segments built for one span
  \<open>[0, 25]\<close> are \<open>none\<close>, \<open>slide\<close>, \<open>fade\<close>: segment \<open>0\<close> has \<open>none\<close> though it is not the only
  segment. And the one segment built for a span \<open>[0, 5]\<close>, which is also the last, has
  \<open>none\<close>, not \<open>fade\<close>.
\<close>

theorem first_segment_out_is_none:
  "map_option (map_sum id (map (\<lambda>s. snd (transitions s))))
     (buildTimeline [exampleSpan ''la'' 0 25] [exampleClip] exampleStyle)
     = Some (Inr [none, slide, fade])
   \<and> map_option (map_sum id (map (\<lambda>s. snd (transitions s))))
       (buildTimeline [exampleSpan ''la'' 0 5] [exampleClip] exampleStyle)
     = Some (Inr [none])"
  by code_simp

section \<open>The karaoke animation (C6)\<close>

text \<open>
  C6, as the code has it. Under the animation type \<open>karaoke\<close> the animation of a span has
  the duration \<open>end - start\<close>, with no minimum, and four keyframes at the times \<open>0\<close>,
  \<open>0.2\<close>, \<open>0.8\<close> and \<open>1\<close> whose background colour goes from \<open>transparent\<close> to the
  highlight \<open>#FFD700\<close> and back, while the opacity stays at \<open>1\<close>.
\<close>

theorem karaoke_animation:
  "style_animationType st = karaoke \<Longrightarrow>
     anim_duration (generateTextAnimation t st) = tr_end t - tr_start t
     \<and> anim_startTime (generateTextAnimation t st) = tr_start t
     \<and> anim_endTime (generateTextAnimation t st) = tr_end t
     \<and> map kf_time (keyframes (generateTextAnimation t st)) = [0, 0.2, 0.8, 1]
     \<and> map kf_backgroundColor (keyframes (generateTextAnimation t st)) =
           [Some ''transparent'', Some ''#FFD700'', Some ''#FFD700'', Some ''transparent'']
     \<and> map kf_opacity (keyframes (generateTextAnimation t st)) = [1, 1, 1, 1]
     \<and> map kf_transform (keyframes (generateTextAnimation t st)) = [None, None, None, None]"
  by (simp add: generateTextAnimation_def kf_bg_def)

text \<open>C6 as amended, at a span \<open>[1, 3]\<close>.\<close>

theorem karaoke_animation_witness:
  "style_animationType exampleStyle = karaoke
   \<and> anim_duration (generateTextAnimation (exampleSpan ''la'' 1 3) exampleStyle) = 2
   \<and> map kf_opacity (keyframes (generateTextAnimation (exampleSpan ''la'' 1 3) exampleStyle))
       = [1, 1, 1, 1]"
proof -
  have h: "style_animationType exampleStyle = karaoke" by (simp add: exampleStyle_def)
  from karaoke_animation [OF h, of "exampleSpan ''la'' 1 3"] h show ?thesis
    by (simp add: exampleSpan_def)
qed

text \<open>
  C6 as stated fails at a span \<open>[1, 1.25]\<close>: the duration is \<open>0.25\<close>, not
  \<open>max(0.25, 0.5) = 0.5\<close>.
\<close>

theorem karaoke_no_minimum_duration:
  "style_animationType exampleStyle = karaoke
   \<and> tr_end (exampleSpan ''la'' 1 1.25) - tr_start (exampleSpan ''la'' 1 1.25) = 0.25
   \<and> anim_duration (generateTextAnimation (exampleSpan ''la'' 1 1.25) exampleStyle) = 0.25
   \<and> anim_duration (generateTextAnimation (exampleSpan ''la'' 1 1.25) exampleStyle)
       \<noteq> max (tr_end (exampleSpan ''la'' 1 1.25) - tr_start (exampleSpan ''la'' 1 1.25)) 0.5"
  by (simp add: generateTextAnimation_def exampleStyle_def exampleSpan_def)

section \<open>Progress events (C7)\<close>

lemma renderVideo_no_clips:
  "renderVideo cb clock af ts [] st opts =
     Some (updateProgress cb rendering 10 ''Building timeline...''
             (updateProgress cb rendering 0 ''Starting video rendering...'' []),
           Inl RenderFailed)"
  by (simp add: buildTimeline_def renderVideo_def)

lemma renderVideo_clips:
  "bvs \<noteq> [] \<Longrightarrow> \<exists>events.
     renderVideo cb clock af ts bvs st opts =
       Some (events, Inr (''final_video_'' @ clock 2 @ ''.'' @ format_name (format opts)))
     \<and> map rp_progress events = (if cb then [0, 10, 25, 40, 60, 80, 95, 100] else [])"
  by (simp add: buildTimeline_map renderVideo_def Let_def updateProgress_def exportVideo_def)

text \<open>
  C7, as the code has it. Every call of \<open>renderVideo\<close> returns; every progress event
  it delivers has a percent value in \<open>[0, 100]\<close>; the values never fall from one event to
  the next; when the module has a callback and the rendering succeeds, the last event
  has \<open>100\<close>; and a module without a callback delivers no event at all.
\<close>

theorem progress_monotone:
  "\<exists>events outcome.
     renderVideo cb clock af ts bvs st opts = Some (events, outcome)
     \<and> (\<forall>e\<in>set events. 0 \<le> rp_progress e \<and> rp_progress e \<le> 100)
     \<and> sorted (map rp_progress events)
     \<and> (cb \<longrightarrow> (\<exists>path. outcome = Inr path) \<longrightarrow>
           events \<noteq> [] \<and> rp_progress (last events) = 100)
     \<and> (\<not> cb \<longrightarrow> events = [])"
proof (cases "bvs = []")
  case True
  then show ?thesis by (simp add: renderVideo_no_clips updateProgress_def)
next
  case False
  from renderVideo_clips [OF False, of cb clock af ts st opts]
  obtain events where ev: "renderVideo cb clock af ts bvs st opts =
       Some (events, Inr (''final_video_'' @ clock 2 @ ''.'' @ format_name (format opts)))"
    and pr: "map rp_progress events = (if cb then [0, 10, 25, 40, 60, 80, 95, 100] else [])"
    by blast
  have rng: "\<forall>p\<in>set (map rp_progress events). 0 \<le> p \<and> p \<le> 100"
    unfolding pr by auto
  have srt: "sorted (map rp_progress events)" unfolding pr by simp
  have lst: "events \<noteq> [] \<and> rp_progress (last events) = 100" if cb
  proof -
    from that pr have m: "map rp_progress events = [0, 10, 25, 40, 60, 80, 95, 100]" by simp
    then have ne: "events \<noteq> []" by auto
    then have "rp_progress (last events) = last (map rp_progress events)" by (simp add: last_map)
    with m ne show ?thesis by simp
  qed
  have emp: "events = []" if "\<not> cb"
  proof -
    from that pr have "map rp_progress events = []" by simp
    then show ?thesis by simp
  qed
  from ev rng srt lst emp show ?thesis by auto
qed

text \<open>C7 as amended, at a job with one span, one clip and a callback.\<close>

theorem progress_monotone_witness:
  "\<exists>events.
     renderVideo True exampleClock exampleAudio [exampleSpan ''la'' 0 25] [exampleClip]
        exampleStyle exampleOptions = Some (events, Inr ''final_video_1700000000000.mp4'')
     \<and> sorted (map rp_progress events)
     \<and> rp_progress (last events) = 100"
proof -
  have oc: "map_option snd (renderVideo True exampleClock exampleAudio [exampleSpan ''la'' 0 25]
      [exampleClip] exampleStyle exampleOptions) = Some (Inr ''final_video_1700000000000.mp4'')"
    by code_simp
  from progress_monotone [of True exampleClock exampleAudio "[exampleSpan ''la'' 0 25]"
      "[exampleClip]" exampleStyle exampleOptions] oc
  show ?thesis by auto
qed

text \<open>
  C7 as stated fails for a module without a callback, as the queue's is: the rendering
  succeeds and no event is delivered, so that the sequence of percent values is empty
  and does not end at \<open>100\<close>.
\<close>

theorem no_callback_no_event:
  "renderVideo False exampleClock exampleAudio [exampleSpan ''la'' 0 25] [exampleClip]
     exampleStyle exampleOptions = Some ([], Inr ''final_video_1700000000000.mp4'')"
  by code_simp

section \<open>The queue's invariant\<close>

lemma renderVideo_total:
  "\<exists>events outcome. renderVideo cb clock af ts bvs st opts = Some (events, outcome)"
proof (cases "bvs = []")
  case True
  then show ?thesis by (simp add: renderVideo_no_clips)
next
  case False
  from renderVideo_clips [OF False, of cb clock af ts st opts] show ?thesis by blast
qed

lemma submitted_append: "submitted (evs @ evs') = submitted evs @ submitted evs'"
  by (induction evs rule: submitted.induct) simp_all

lemma run_snoc: "run (evs @ [e]) = step (run evs) e"
  by (simp add: run_def)

lemma run_append: "run (evs @ evs') = foldl step (run evs) evs'"
  by (simp add: run_def)

lemma initial_ok: "queue_ok initialQueue"
  by (simp add: queue_ok_def initialQueue_def)

lemma addJob_ok: "queue_ok s \<Longrightarrow> queue_ok (addJob job s)"
  by (auto simp: queue_ok_def addJob_def processQueue_def Let_def)

lemma addJob_order:
  "queue_ok s \<Longrightarrow> served_order (addJob job s) = served_order s @ [job_id job]"
  by (auto simp: queue_ok_def served_order_def addJob_def processQueue_def Let_def)

lemma settle_running:
  assumes "queue_ok s" and "running s = [job]"
  shows "\<exists>events outcome.
           renderVideo False clock (job_audioFile job) (job_transcriptions job)
             (job_backgroundVideos job) (job_style job) (job_options job) = Some (events, outcome)
           \<and> settle 0 clock s =
               s\<lparr> running := [], settled := settled s @ [(job_id job, outcome)], timers := 1 \<rparr>"
proof -
  from renderVideo_total obtain events outcome where
    rv: "renderVideo False clock (job_audioFile job) (job_transcriptions job)
           (job_backgroundVideos job) (job_style job) (job_options job) = Some (events, outcome)"
    by blast
  have "timers s = 0" using assms by (simp add: queue_ok_def)
  then have "settle 0 clock s =
      s\<lparr> running := [], settled := settled s @ [(job_id job, outcome)], timers := 1 \<rparr>"
    using assms(2) rv by (simp add: settle_def)
  with rv show ?thesis by blast
qed

lemma settle_idle: "running s = [] \<Longrightarrow> settle k clock s = s"
  by (simp add: settle_def)

lemma settle_ok: "queue_ok s \<Longrightarrow> queue_ok (settle k clock s)"
proof (cases "running s")
  case Nil
  assume "queue_ok s"
  with Nil show ?thesis by (simp add: settle_idle)
next
  case (Cons job rest)
  assume ok: "queue_ok s"
  with Cons have r: "running s = [job]" by (simp add: queue_ok_def)
  show ?thesis
  proof (cases k)
    case 0
    from settle_running [OF ok r, of clock] ok r show ?thesis
      unfolding 0 by (auto simp: queue_ok_def)
  next
    case (Suc k')
    then show ?thesis using ok r by (simp add: settle_def)
  qed
qed

lemma settle_order: "queue_ok s \<Longrightarrow> served_order (settle k clock s) = served_order s"
proof (cases "running s")
  case Nil
  then show ?thesis by (simp add: settle_idle)
next
  case (Cons job rest)
  assume ok: "queue_ok s"
  with Cons have r: "running s = [job]" by (simp add: queue_ok_def)
  show ?thesis
  proof (cases k)
    case 0
    from settle_running [OF ok r, of clock] r show ?thesis
      unfolding 0 by (auto simp: served_order_def)
  next
    case (Suc k')
    then show ?thesis using r by (simp add: settle_def)
  qed
qed

lemma timerFires_ok: "queue_ok s \<Longrightarrow> queue_ok (timerFires s)"
  by (auto simp: queue_ok_def timerFires_def processQueue_def)

lemma timerFires_order: "queue_ok s \<Longrightarrow> served_order (timerFires s) = served_order s"
  by (cases "queue s") (auto simp: queue_ok_def served_order_def timerFires_def processQueue_def)

lemma step_ok: "queue_ok s \<Longrightarrow> queue_ok (step s e)"
  by (cases e) (simp_all add: addJob_ok settle_ok timerFires_ok)

lemma step_order: "queue_ok s \<Longrightarrow> served_order (step s e) = served_order s @ submitted [e]"
  by (cases e) (simp_all add: addJob_order settle_order timerFires_order)

lemma run_ok: "queue_ok (run evs)"
proof (induction evs rule: rev_induct)
  case Nil
  show ?case by (simp add: run_def initial_ok)
next
  case (snoc e evs)
  then show ?case by (simp add: run_snoc step_ok)
qed

lemma run_order: "served_order (run evs) = submitted evs"
proof (induction evs rule: rev_induct)
  case Nil
  show ?case by (simp add: run_def served_order_def initialQueue_def)
next
  case (snoc e evs)
  then show ?case by (simp add: run_snoc step_order run_ok submitted_append)
qed

lemma round_unsettled:
  assumes "queue_ok s"
  shows "unsettled (step (step s (Settle 0 clock)) TimerFires) = unsettled s - 1"
proof (cases "running s")
  case Nil
  then have "settle 0 clock s = s" by (rule settle_idle)
  then show ?thesis using assms Nil
    by (cases "queue s") (auto simp: queue_ok_def unsettled_def timerFires_def processQueue_def)
next
  case (Cons job rest)
  with assms have r: "running s = [job]" by (simp add: queue_ok_def)
  from settle_running [OF assms r, of clock] obtain outcome where
    "settle 0 clock s =
       s\<lparr> running := [], settled := settled s @ [(job_id job, outcome)], timers := 1 \<rparr>"
    by blast
  moreover have "timers s = 0" using assms r by (simp add: queue_ok_def)
  ultimately show ?thesis using r
    by (cases "queue s") (auto simp: unsettled_def timerFires_def processQueue_def)
qed

lemma drain_Suc: "drain clock (Suc m) = [Settle 0 clock, TimerFires] @ drain clock m"
  by (simp add: drain_def)

lemma submitted_drain: "submitted (drain clock m) = []"
  by (induction m) (simp_all add: drain_def)

lemma drained:
  "queue_ok s \<Longrightarrow> unsettled s \<le> m \<Longrightarrow> unsettled (foldl step s (drain clock m)) = 0"
proof (induction m arbitrary: s)
  case 0
  then show ?case by (simp add: drain_def)
next
  case (Suc m)
  let ?s' = "step (step s (Settle 0 clock)) TimerFires"
  have "queue_ok ?s'" using Suc.prems(1) by (intro step_ok)
  moreover have "unsettled ?s' \<le> m"
    using Suc.prems round_unsettled [of s clock] by simp
  ultimately have "unsettled (foldl step ?s' (drain clock m)) = 0" by (rule Suc.IH)
  then show ?case by (simp add: drain_Suc)
qed

section \<open>First in, first out (C9)\<close>

text \<open>
  C9. After any sequence of events, at most one job of the queue is being rendered,
  and the ids of the jobs called back so far, followed by the job being rendered and by
  the waiting jobs, are the ids of the submitted jobs in the order of submission: the
  callbacks come in that order. And a queue left to run, with no new job, reaches a
  state with no job rendered or waiting, in which the callbacks made are those of all
  submitted jobs, in the order of submission.
\<close>

theorem queue_is_fifo:
  "length (running (run evs)) \<le> 1
   \<and> map fst (settled (run evs)) @ map job_id (running (run evs)) @ map job_id (queue (run evs))
       = submitted evs
   \<and> (\<exists>m. running (run (evs @ drain clock m)) = []
           \<and> queue (run (evs @ drain clock m)) = []
           \<and> map fst (settled (run (evs @ drain clock m))) = submitted evs)"
proof -
  have one: "length (running (run evs)) \<le> 1" using run_ok [of evs] by (simp add: queue_ok_def)
  have order: "map fst (settled (run evs)) @ map job_id (running (run evs))
      @ map job_id (queue (run evs)) = submitted evs"
    using run_order [of evs] by (simp add: served_order_def)
  define m where "m = unsettled (run evs)"
  have "unsettled (run (evs @ drain clock m)) = 0"
    unfolding run_append by (rule drained [OF run_ok]) (simp add: m_def)
  then have idle: "running (run (evs @ drain clock m)) = []" "queue (run (evs @ drain clock m)) = []"
    by (simp_all add: unsettled_def)
  have "served_order (run (evs @ drain clock m)) = submitted evs"
    by (simp add: run_order submitted_append submitted_drain)
  with idle have "map fst (settled (run (evs @ drain clock m))) = submitted evs"
    by (simp add: served_order_def)
  with idle one order show ?thesis by blast
qed

text \<open>C9 at three jobs \<open>A\<close>, \<open>B\<close>, \<open>C\<close> submitted in a row and left to run.\<close>

theorem queue_is_fifo_witness:
  "map fst (settled (run ([AddJob (exampleJob ''A'' [exampleClip]),
                           AddJob (exampleJob ''B'' [exampleClip]),
                           AddJob (exampleJob ''C'' [exampleClip])] @ drain exampleClock 3)))
     = [''A'', ''B'', ''C'']"
proof -
  let ?evs = "[AddJob (exampleJob ''A'' [exampleClip]), AddJob (exampleJob ''B'' [exampleClip]),
               AddJob (exampleJob ''C'' [exampleClip])] @ drain exampleClock 3"
  have idle: "running (run ?evs) = [] \<and> queue (run ?evs) = []" by code_simp
  have sub: "submitted ?evs = [''A'', ''B'', ''C'']" by code_simp
  from queue_is_fifo [of ?evs exampleClock] idle sub show ?thesis by simp
qed

section \<open>A failed job does not block the queue (C8)\<close>

text \<open>
  C8, as the code has it. Let job \<open>A\<close> be rendered and job \<open>B\<close> wait first in the queue,
  \<open>A\<close> with no clip and \<open>B\<close> with one at least. Then the rendering of \<open>A\<close> fails with no
  progress event delivered, and \<open>onError\<close> of \<open>A\<close> is called with the general error
  \<open>Failed to render video. Please try again.\<close>, which is not what was thrown; when the
  timer has fired \<open>B\<close> is rendered, and it completes with its output path.
\<close>

theorem failed_job_does_not_block:
  assumes "running s = [A]" and "queue s = B # rest"
    and "job_backgroundVideos A = []" and "job_backgroundVideos B \<noteq> []"
  shows "renderVideo False clock1 (job_audioFile A) (job_transcriptions A)
           (job_backgroundVideos A) (job_style A) (job_options A) = Some ([], Inl RenderFailed)
         \<and> settled (step s (Settle 0 clock1)) = settled s @ [(job_id A, Inl RenderFailed)]
         \<and> running (step (step s (Settle 0 clock1)) TimerFires) = [B]
         \<and> queue (step (step s (Settle 0 clock1)) TimerFires) = rest
         \<and> settled (step (step (step s (Settle 0 clock1)) TimerFires) (Settle 0 clock2)) =
             settled s @ [(job_id A, Inl RenderFailed),
                          (job_id B, Inr (''final_video_'' @ clock2 2 @ ''.''
                                            @ format_name (format (job_options B))))]"
proof -
  have rvA: "renderVideo False clock1 (job_audioFile A) (job_transcriptions A)
      (job_backgroundVideos A) (job_style A) (job_options A) = Some ([], Inl RenderFailed)"
    unfolding assms(3) by (simp add: renderVideo_no_clips updateProgress_def)
  from renderVideo_clips [OF assms(4), of False clock2 "job_audioFile B" "job_transcriptions B"
      "job_style B" "job_options B"]
  have rvB: "renderVideo False clock2 (job_audioFile B) (job_transcriptions B)
      (job_backgroundVideos B) (job_style B) (job_options B) =
      Some ([], Inr (''final_video_'' @ clock2 2 @ ''.'' @ format_name (format (job_options B))))"
    by auto
  have s1: "step s (Settle 0 clock1) =
      s\<lparr> running := [], settled := settled s @ [(job_id A, Inl RenderFailed)],
         timers := timers s + 1 \<rparr>"
    using assms(1) rvA by (simp add: settle_def)
  have s2: "step (step s (Settle 0 clock1)) TimerFires =
      s\<lparr> running := [B], settled := settled s @ [(job_id A, Inl RenderFailed)],
         timers := timers s, isProcessing := True, queue := rest \<rparr>"
    unfolding s1 using assms(2) by (simp add: timerFires_def processQueue_def)
  have s3: "settled (step (step (step s (Settle 0 clock1)) TimerFires) (Settle 0 clock2)) =
      settled s @ [(job_id A, Inl RenderFailed),
                   (job_id B, Inr (''final_video_'' @ clock2 2 @ ''.''
                                     @ format_name (format (job_options B))))]"
    unfolding s2 using rvB by (simp add: settle_def)
  show ?thesis using rvA s1 s2 s3 by simp
qed

text \<open>C8 as amended, at two jobs submitted in a row, the first with no clip.\<close>

theorem failed_job_does_not_block_witness:
  "settled (step (step (step (run [AddJob (exampleJob ''A'' []),
                                   AddJob (exampleJob ''B'' [exampleClip])])
                          (Settle 0 exampleClock)) TimerFires) (Settle 0 exampleClock))
     = [(''A'', Inl RenderFailed), (''B'', Inr ''final_video_1700000000000.mp4'')]"
proof -
  let ?s = "run [AddJob (exampleJob ''A'' []), AddJob (exampleJob ''B'' [exampleClip])]"
  have h1: "running ?s = [exampleJob ''A'' []]" by code_simp
  have h2: "queue ?s = exampleJob ''B'' [exampleClip] # []" by code_simp
  have h3: "job_backgroundVideos (exampleJob ''A'' []) = []" by (simp add: exampleJob_def)
  have h4: "job_backgroundVideos (exampleJob ''B'' [exampleClip]) \<noteq> []"
    by (simp add: exampleJob_def)
  have h0: "settled ?s = []" by code_simp
  from failed_job_does_not_block [OF h1 h2 h3 h4, of exampleClock exampleClock] h0
  show ?thesis
    by (simp add: exampleJob_def exampleClock_def exampleOptions_def format_name_def)
qed

text \<open>
  C8 as stated fails at a job with no clip: \<open>buildTimeline\<close> throws
  \<open>No background videos available for rendering\<close>, and the job's \<open>onError\<close> receives
  another error, \<open>Failed to render video. Please try again.\<close>
\<close>

theorem failed_job_loses_its_cause:
  "buildTimeline (job_transcriptions (exampleJob ''A'' [])) (job_backgroundVideos (exampleJob ''A'' []))
      (job_style (exampleJob ''A'' [])) = Some (Inl NoBackgroundVideos)
   \<and> settled (run [AddJob (exampleJob ''A'' []), Settle 0 exampleClock])
       = [(''A'', Inl RenderFailed)]
   \<and> RenderFailed \<noteq> NoBackgroundVideos"
  by code_simp

section \<open>Keywords (C10)\<close>

lemma toLowerCase_char_idem: "toLowerCase_char (toLowerCase_char c) = toLowerCase_char c"
  by (auto simp: toLowerCase_char_def)

lemma toLowerCase_char_blank: "toLowerCase_char (CHR '' '') = CHR '' ''"
  by (simp add: toLowerCase_char_def)

lemma split_from_chars:
  "w \<in> set (split_from cur s) \<Longrightarrow> set w \<subseteq> set cur \<union> set s"
proof (induction cur s rule: split_from.induct)
  case (1 cur)
  then show ?case by simp
next
  case (2 cur c cs)
  show ?case
  proof (cases "isSpaceChar c")
    case True
    with "2.prems" have "w = cur \<or> w \<in> set (split_from [] (dropWhile isSpaceChar cs))" by simp
    then show ?thesis
    proof
      assume "w = cur"
      then show ?thesis by auto
    next
      assume "w \<in> set (split_from [] (dropWhile isSpaceChar cs))"
      then have "set w \<subseteq> set [] \<union> set (dropWhile isSpaceChar cs)"
        using True by (rule "2.IH"(1) [rotated])
      moreover have "set (dropWhile isSpaceChar cs) \<subseteq> set cs" by (rule set_dropWhileD [THEN subsetI])
      ultimately show ?thesis by auto
    qed
  next
    case False
    with "2.prems" have "w \<in> set (split_from (cur @ [c]) cs)" by simp
    then have "set w \<subseteq> set (cur @ [c]) \<union> set cs" using False by (rule "2.IH"(2) [rotated])
    then show ?thesis by auto
  qed
qed

lemma textWords_lower: "w \<in> set (textWords ts) \<Longrightarrow> toLowerCase w = w"
proof -
  assume "w \<in> set (textWords ts)"
  then have "set w \<subseteq> set (replace_nonword (fullText ts))"
    using split_from_chars [of w "[]"] by (simp add: textWords_def split_ws_def)
  moreover have "toLowerCase_char c = c" if "c \<in> set (replace_nonword (fullText ts))" for c
    using that
    by (auto simp: replace_nonword_def fullText_def toLowerCase_def toLowerCase_char_idem
        toLowerCase_char_blank split: if_splits)
  ultimately have "\<And>c. c \<in> set w \<Longrightarrow> toLowerCase_char c = c" by blast
  then show ?thesis unfolding toLowerCase_def by (rule map_idI)
qed

lemma countWord_keys: "fst ` set (countWord m w) = insert w (fst ` set m)"
  by (simp add: countWord_def dom_update)

lemma countWord_distinct: "distinct (map fst m) \<Longrightarrow> distinct (map fst (countWord m w))"
  by (simp add: countWord_def distinct_update)

lemma countWord_lookup:
  "map_of (countWord m w) v =
     (if v = w then Some ((case map_of m w of None \<Rightarrow> 0 | Some n \<Rightarrow> n) + 1) else map_of m v)"
  by (simp add: countWord_def update_conv')

lemma foldl_countWord_keys: "fst ` set (foldl countWord m ws) = fst ` set m \<union> set ws"
  by (induction ws arbitrary: m) (auto simp: countWord_keys)

lemma foldl_countWord_distinct:
  "distinct (map fst m) \<Longrightarrow> distinct (map fst (foldl countWord m ws))"
  by (induction ws arbitrary: m) (auto simp: countWord_distinct)

lemma foldl_countWord_lookup:
  "v \<in> set ws \<Longrightarrow>
     map_of (foldl countWord m ws) v =
       Some ((case map_of m v of None \<Rightarrow> 0 | Some n \<Rightarrow> n) + count_list ws v)"
proof (induction ws arbitrary: m)
  case Nil
  then show ?case by simp
next
  case (Cons w ws)
  show ?case
  proof (cases "v \<in> set ws")
    case True
    then show ?thesis using Cons.IH [of "countWord m w"] by (simp add: countWord_lookup)
  next
    case False
    with Cons.prems have vw: "v = w" by simp
    have keep: "map_of (foldl countWord m' ws) v = map_of m' v" for m'
      using False by (induction ws arbitrary: m') (auto simp: countWord_lookup)
    have "map_of (foldl countWord (countWord m w) ws) v = map_of (countWord m w) v"
      by (rule keep)
    then show ?thesis using False vw by (simp add: countWord_lookup count_list_0_iff)
  qed
qed

lemma countWords_entry:
  assumes "(w, c) \<in> set (countWords ws)"
  shows "w \<in> set ws \<and> c = count_list ws w"
proof -
  have d: "distinct (map fst (countWords ws))"
    unfolding countWords_def by (rule foldl_countWord_distinct) simp
  have "w \<in> fst ` set (countWords ws)" using assms by force
  then have w: "w \<in> set ws" by (simp add: countWords_def foldl_countWord_keys)
  have "map_of (countWords ws) w = Some c" using d assms by simp
  moreover have "map_of (countWords ws) w = Some (count_list ws w)"
    unfolding countWords_def using foldl_countWord_lookup [OF w, of "[]"] by simp
  ultimately show ?thesis using w by simp
qed

lemma countWords_distinct: "distinct (map fst (countWords ws))"
  unfolding countWords_def by (rule foldl_countWord_distinct) simp

lemma count_list_filter: "P w \<Longrightarrow> count_list (filter P ws) w = count_list ws w"
  by (induction ws) auto

text \<open>
  C10. For every list of spans, \<open>extractKeywords\<close> returns at most ten keywords; each is
  longer than two characters, is in lower case and is no stop word; the keywords come
  by falling number of occurrences among the words of the text of all spans; and no
  keyword comes twice.
\<close>

theorem extractKeywords_ranked:
  "length (extractKeywords ts) \<le> 10
   \<and> (\<forall>w\<in>set (extractKeywords ts). 2 < length w \<and> toLowerCase w = w \<and> w \<notin> set stopWords)
   \<and> sorted_wrt (\<lambda>a b. count_list (textWords ts) b \<le> count_list (textWords ts) a)
        (extractKeywords ts)
   \<and> distinct (extractKeywords ts)"
proof -
  define key where "key = (\<lambda>e :: string \<times> nat. - int (snd e))"
  define ranked where "ranked = sort_key key (countWords (keptWords ts))"
  have ek: "extractKeywords ts = map fst (take 10 ranked)"
    by (simp add: extractKeywords_def ranked_def key_def)
  have len: "length (extractKeywords ts) \<le> 10" by (simp add: ek)
  have entry: "w \<in> set (keptWords ts) \<and> c = count_list (textWords ts) w"
    if "(w, c) \<in> set ranked" for w c
  proof -
    from that have "(w, c) \<in> set (countWords (keptWords ts))" by (simp add: ranked_def)
    then have w: "w \<in> set (keptWords ts)" and c: "c = count_list (keptWords ts) w"
      by (simp_all add: countWords_entry)
    from w have "2 < length w \<and> w \<notin> set stopWords" by (simp add: keptWords_def)
    then have "count_list (keptWords ts) w = count_list (textWords ts) w"
      unfolding keptWords_def by (intro count_list_filter) simp
    with w c show ?thesis by simp
  qed
  have words: "2 < length w \<and> toLowerCase w = w \<and> w \<notin> set stopWords"
    if "w \<in> set (extractKeywords ts)" for w
  proof -
    from that obtain c where "(w, c) \<in> set (take 10 ranked)" unfolding ek by auto
    then have "(w, c) \<in> set ranked" by (rule in_set_takeD)
    then have "w \<in> set (keptWords ts)" using entry by blast
    then have "w \<in> set (textWords ts)" "2 < length w" "w \<notin> set stopWords"
      by (simp_all add: keptWords_def)
    then show ?thesis by (simp add: textWords_lower)
  qed
  have "sorted (map key ranked)" unfolding ranked_def by (rule sorted_sort_key)
  then have "sorted_wrt (\<lambda>x y. key x \<le> key y) ranked" by (simp add: sorted_map)
  then have "sorted_wrt (\<lambda>x y. count_list (textWords ts) (fst y) \<le> count_list (textWords ts) (fst x))
      ranked"
  proof (rule sorted_wrt_mono_rel [rotated])
    fix x y assume "x \<in> set ranked" "y \<in> set ranked" "key x \<le> key y"
    moreover have "snd x = count_list (textWords ts) (fst x)"
      using entry [of "fst x" "snd x"] \<open>x \<in> set ranked\<close> by simp
    moreover have "snd y = count_list (textWords ts) (fst y)"
      using entry [of "fst y" "snd y"] \<open>y \<in> set ranked\<close> by simp
    ultimately show "count_list (textWords ts) (fst y) \<le> count_list (textWords ts) (fst x)"
      by (simp add: key_def)
  qed
  then have "sorted_wrt (\<lambda>x y. count_list (textWords ts) (fst y) \<le> count_list (textWords ts) (fst x))
      (take 10 ranked)"
    by (rule sorted_wrt_take)
  then have srt: "sorted_wrt (\<lambda>a b. count_list (textWords ts) b \<le> count_list (textWords ts) a)
      (extractKeywords ts)"
    by (simp add: ek sorted_wrt_map)
  have "distinct (map fst ranked)"
    using countWords_distinct [of "keptWords ts"]
    by (simp add: ranked_def distinct_map)
  then have "distinct (take 10 (map fst ranked))" by (rule distinct_take)
  then have dst: "distinct (extractKeywords ts)" by (simp add: ek take_map)
  from len words srt dst show ?thesis by blast
qed

text \<open>C10 at two spans: \<open>moon\<close> occurs four times, \<open>sun\<close> three times, \<open>shining\<close> twice.\<close>

theorem extractKeywords_ranked_witness:
  "extractKeywords [exampleSpan ''The Sun is shining, the SUN!'' 0 1,
                    exampleSpan ''sun & moon; shining moon, MOON moon'' 1 2]
     = [''moon'', ''sun'', ''shining'']
   \<and> map (count_list (textWords [exampleSpan ''The Sun is shining, the SUN!'' 0 1,
                                  exampleSpan ''sun & moon; shining moon, MOON moon'' 1 2]))
       [''moon'', ''sun'', ''shining''] = [4, 3, 2]
   \<and> length (extractKeywords [exampleSpan ''The Sun is shining, the SUN!'' 0 1,
                    exampleSpan ''sun & moon; shining moon, MOON moon'' 1 2]) \<le> 10"
proof -
  let ?ts = "[exampleSpan ''The Sun is shining, the SUN!'' 0 1,
              exampleSpan ''sun & moon; shining moon, MOON moon'' 1 2]"
  have a: "extractKeywords ?ts = [''moon'', ''sun'', ''shining'']" by code_simp
  have b: "map (count_list (textWords ?ts)) [''moon'', ''sun'', ''shining''] = [4, 3, 2]"
    by code_simp
  from extractKeywords_ranked [of ?ts] a b show ?thesis by simp
qed

end
